theory Spec2Isabelle
  imports Main
begin

section \<open>Conway's Game of Life on a toroidal grid: the model of game_of_life.py\<close>

subsection \<open>Errors and the Python primitives the grid code uses\<close>

text \<open>
  Every exception the modelled code can raise is a value. \<open>SingletonError\<close> is the
  \<^verbatim>\<open>Exception("This class is a singleton!")\<close> of \<^verbatim>\<open>GameConfig.__init__\<close>; the others
  are the exceptions of the Python and numpy primitives the grid code calls:
  \<^verbatim>\<open>%\<close> and \<^verbatim>\<open>//\<close> by zero, an array index out of range, an array dimension that is
  negative or too big, an allocation the process cannot get.
\<close>

datatype error = SingletonError | IndexError | ZeroDivisionError | ValueError | MemoryError

definition ebind :: "error + 'a \<Rightarrow> ('a \<Rightarrow> error + 'b) \<Rightarrow> error + 'b" where
  "ebind m f = (case m of Inl e \<Rightarrow> Inl e | Inr v \<Rightarrow> f v)"

text \<open>Python's \<^verbatim>\<open>a % b\<close> and \<^verbatim>\<open>a // b\<close> on integers: floor division, the sign of the
  remainder follows the divisor (as \<open>mod\<close> and \<open>div\<close> on \<open>int\<close> do), and a zero divisor raises.\<close>

definition py_mod :: "int \<Rightarrow> int \<Rightarrow> error + int" where
  "py_mod a b = (if b = 0 then Inl ZeroDivisionError else Inr (a mod b))"

definition py_floordiv :: "int \<Rightarrow> int \<Rightarrow> error + int" where
  "py_floordiv a b = (if b = 0 then Inl ZeroDivisionError else Inr (a div b))"

text \<open>\<^verbatim>\<open>range(n)\<close>: the integers from 0 up to \<open>n - 1\<close>, empty when \<open>n \<le> 0\<close>.\<close>

definition py_range :: "int \<Rightarrow> int list" where
  "py_range n = [0..n - 1]"

text \<open>A \<^verbatim>\<open>for\<close> loop whose body updates a state and may raise: the first exception ends
  the loop.\<close>

fun for_loop :: "'i list \<Rightarrow> ('i \<Rightarrow> 's \<Rightarrow> error + 's) \<Rightarrow> 's \<Rightarrow> error + 's" where
  "for_loop [] body s = Inr s"
| "for_loop (i # is) body s = ebind (body i s) (for_loop is body)"

text \<open>A list comprehension whose element expression may raise.\<close>

fun comprehension :: "('a \<Rightarrow> error + 'b) \<Rightarrow> 'a list \<Rightarrow> error + 'b list" where
  "comprehension f [] = Inr []"
| "comprehension f (x # xs) =
     ebind (f x) (\<lambda>v. ebind (comprehension f xs) (\<lambda>vs. Inr (v # vs)))"

subsection \<open>The two-dimensional integer array\<close>

text \<open>
  The numpy array \<^verbatim>\<open>state\<close> of shape \<open>(n0, n1)\<close> is the list of its \<open>n0\<close> rows along the
  first axis, each a list of \<open>n1\<close> integers: \<^verbatim>\<open>state[x, y]\<close> is \<open>state ! x ! y\<close>. An integer
  index \<open>i\<close> along an axis of length \<open>n\<close> is valid when \<open>-n \<le> i < n\<close> (a negative one
  counts from the end); any other raises IndexError.
\<close>

type_synonym ndarray = "int list list"

definition has_shape :: "ndarray \<Rightarrow> nat \<Rightarrow> nat \<Rightarrow> bool" where
  "has_shape a n0 n1 = (length a = n0 \<and> list_all (\<lambda>row. length row = n1) a)"

definition np_index :: "nat \<Rightarrow> int \<Rightarrow> error + nat" where
  "np_index n i =
     (if 0 \<le> i \<and> i < int n then Inr (nat i)
      else if - int n \<le> i \<and> i < 0 then Inr (nat (i + int n))
      else Inl IndexError)"

definition np_get :: "ndarray \<Rightarrow> int \<Rightarrow> int \<Rightarrow> error + int" where
  "np_get a i j =
     ebind (np_index (length a) i) (\<lambda>i'.
     ebind (np_index (length (a ! i')) j) (\<lambda>j'.
       Inr (a ! i' ! j')))"

definition np_set :: "ndarray \<Rightarrow> int \<Rightarrow> int \<Rightarrow> int \<Rightarrow> error + ndarray" where
  "np_set a i j v =
     ebind (np_index (length a) i) (\<lambda>i'.
     ebind (np_index (length (a ! i')) j) (\<lambda>j'.
       Inr (a[i' := (a ! i')[j' := v]])))"

definition np_copy :: "ndarray \<Rightarrow> ndarray" where
  "np_copy a = a"

text \<open>
  \<^verbatim>\<open>np.random.choice([0, 1], size=(n0, n1), p=[0.8, 0.2])\<close>. What the call depends on
  beyond its arguments is a parameter, the environment \<open>env\<close>: \<open>draw env i j\<close> says
  whether the pseudo-random draw for cell \<open>(i, j)\<close> chose the second element of the
  population \<open>[0, 1]\<close>, and \<open>alloc_error env (n0, n1)\<close> is the library's verdict on
  an array of that shape: \<open>None\<close> when it can be built, or the exception raised when
  it cannot (ValueError for a shape too big for the index type, MemoryError when
  the process cannot get the memory); which shapes fail depends on the platform.
  A negative dimension always raises ValueError; a zero dimension that is accepted
  gives an empty array.
\<close>

record np_env =
  draw :: "nat \<Rightarrow> nat \<Rightarrow> bool"
  alloc_error :: "int \<times> int \<Rightarrow> error option"

definition np_random_choice :: "int \<times> int \<Rightarrow> np_env \<Rightarrow> error + ndarray" where
  "np_random_choice shape env =
     (case shape of (n0, n1) \<Rightarrow>
        if n0 < 0 \<or> n1 < 0 then Inl ValueError
        else
          (case alloc_error env (n0, n1) of
             Some e \<Rightarrow> Inl e
           | None \<Rightarrow>
               Inr (map (\<lambda>i. map (\<lambda>j. [0, 1] ! (if draw env i j then 1 else 0)) [0..<nat n1])
                      [0..<nat n0])))"

subsection \<open>GameConfig: the singleton configuration\<close>

record config =
  width :: int
  height :: int
  n_cells_x :: int
  n_cells_y :: int
  cell_width :: int
  cell_height :: int

text \<open>
  The interpreter state the class touches: the store of constructed GameConfig
  objects (an object is its address), the next unused address, and the class
  attribute \<^verbatim>\<open>GameConfig._instance\<close> (None or a reference).
\<close>

record py_state =
  objects :: "nat \<rightharpoonup> config"
  fresh :: nat
  GameConfig_instance :: "nat option"

definition initial_state :: py_state where
  "initial_state = \<lparr>objects = Map.empty, fresh = 0, GameConfig_instance = None\<rparr>"

text \<open>
  The call \<^verbatim>\<open>GameConfig()\<close>: a new object is allocated and \<^verbatim>\<open>__init__\<close> runs on it. When
  an instance exists it raises and the new object is dropped; otherwise the six
  attributes are set and the object becomes \<^verbatim>\<open>_instance\<close>.
\<close>

definition GameConfig_init :: "py_state \<Rightarrow> (error + nat) \<times> py_state" where
  "GameConfig_init s =
     (let self = fresh s; s1 = s\<lparr>fresh := Suc (fresh s)\<rparr> in
      if GameConfig_instance s1 \<noteq> None then (Inl SingletonError, s1)
      else
        (case py_floordiv 800 40 of
           Inl e \<Rightarrow> (Inl e, s1)
         | Inr cw \<Rightarrow>
            (case py_floordiv 600 30 of
               Inl e \<Rightarrow> (Inl e, s1)
             | Inr ch \<Rightarrow>
                (Inr self,
                 s1\<lparr>objects := (objects s1)(self \<mapsto>
                        \<lparr>width = 800, height = 600, n_cells_x = 40, n_cells_y = 30,
                         cell_width = cw, cell_height = ch\<rparr>),
                    GameConfig_instance := Some self\<rparr>))))"

definition get_instance :: "py_state \<Rightarrow> (error + nat option) \<times> py_state" where
  "get_instance s =
     (if GameConfig_instance s = None then
        (case GameConfig_init s of
           (Inl e, s') \<Rightarrow> (Inl e, s')
         | (Inr _, s') \<Rightarrow> (Inr (GameConfig_instance s'), s'))
      else (Inr (GameConfig_instance s), s))"

text \<open>The module-level \<^verbatim>\<open>config = GameConfig.get_instance()\<close>, as the value of the object.\<close>

definition module_config :: config where
  "module_config =
     \<lparr>width = 800, height = 600, n_cells_x = 40, n_cells_y = 30,
      cell_width = 20, cell_height = 20\<rparr>"

subsection \<open>GameState: the grid and its transition\<close>

record GameState =
  state :: ndarray

text \<open>The methods read the global \<^verbatim>\<open>config\<close>; the model takes it as the argument \<open>cfg\<close>.\<close>

definition GameState_init :: "config \<Rightarrow> np_env \<Rightarrow> error + GameState" where
  "GameState_init cfg env =
     ebind (np_random_choice (n_cells_x cfg, n_cells_y cfg) env) (\<lambda>a. Inr \<lparr>state = a\<rparr>)"

definition neighbor_offsets :: "(int \<times> int) list" where
  "neighbor_offsets =
     [(i, j). i \<leftarrow> [-1, 0, 1], j \<leftarrow> [-1, 0, 1], \<not> (i = 0 \<and> j = 0)]"

definition neighbor_cell :: "config \<Rightarrow> GameState \<Rightarrow> int \<Rightarrow> int \<Rightarrow> int \<times> int \<Rightarrow> error + int" where
  "neighbor_cell cfg self x y =
     (\<lambda>(i, j).
        ebind (py_mod (x + i) (n_cells_x cfg)) (\<lambda>a.
        ebind (py_mod (y + j) (n_cells_y cfg)) (\<lambda>b.
          np_get (state self) a b)))"

definition count_neighbors :: "config \<Rightarrow> GameState \<Rightarrow> int \<Rightarrow> int \<Rightarrow> error + int" where
  "count_neighbors cfg self x y =
     ebind (comprehension (neighbor_cell cfg self x y) neighbor_offsets) (\<lambda>vs.
       Inr (sum_list vs))"

text \<open>The body of the inner loop of \<^verbatim>\<open>next_generation\<close>: reads \<^verbatim>\<open>self.state\<close>, writes
  \<^verbatim>\<open>new_state\<close>.\<close>

definition update_cell :: "config \<Rightarrow> GameState \<Rightarrow> int \<Rightarrow> int \<Rightarrow> ndarray \<Rightarrow> error + ndarray" where
  "update_cell cfg self y x new_state =
     ebind (count_neighbors cfg self x y) (\<lambda>n_neighbors.
     ebind (np_get (state self) x y) (\<lambda>c.
       if c = 1 \<and> (n_neighbors < 2 \<or> n_neighbors > 3) then np_set new_state x y 0
       else if c = 0 \<and> n_neighbors = 3 then np_set new_state x y 1
       else Inr new_state))"

definition next_generation :: "config \<Rightarrow> GameState \<Rightarrow> error + GameState" where
  "next_generation cfg self =
     ebind
       (for_loop (py_range (n_cells_y cfg))
          (\<lambda>y. for_loop (py_range (n_cells_x cfg)) (\<lambda>x. update_cell cfg self y x))
          (np_copy (state self)))
       (\<lambda>new_state. Inr (self\<lparr>state := new_state\<rparr>))"

text \<open>\<open>n\<close> calls of \<^verbatim>\<open>next_generation\<close> in a row.\<close>

fun generations :: "config \<Rightarrow> nat \<Rightarrow> GameState \<Rightarrow> error + GameState" where
  "generations cfg 0 self = Inr self"
| "generations cfg (Suc n) self = ebind (next_generation cfg self) (generations cfg n)"

subsection \<open>The transition as the specification words it\<close>

text \<open>
  The reference the code is compared with, written from the specification and not from
  the loops: the eight Moore offsets, the neighbour coordinate
  \<open>((x + dx) mod W, (y + dy) mod H)\<close>, the rule on one cell, and the two-buffer step
  that evaluates every cell against the same prior grid.
\<close>

definition moore_offsets :: "(int \<times> int) list" where
  "moore_offsets = [(-1, -1), (-1, 0), (-1, 1), (0, -1), (0, 1), (1, -1), (1, 0), (1, 1)]"

definition wrapped_cell :: "int \<Rightarrow> int \<Rightarrow> ndarray \<Rightarrow> int \<Rightarrow> int \<Rightarrow> int" where
  "wrapped_cell W H g x y = g ! nat (x mod W) ! nat (y mod H)"

definition count_live_neighbors :: "int \<Rightarrow> int \<Rightarrow> ndarray \<Rightarrow> int \<Rightarrow> int \<Rightarrow> int" where
  "count_live_neighbors W H g x y =
     sum_list (map (\<lambda>(dx, dy). wrapped_cell W H g (x + dx) (y + dy)) moore_offsets)"

definition life_rule :: "int \<Rightarrow> int \<Rightarrow> int" where
  "life_rule c n =
     (if c = 1 \<and> (n < 2 \<or> n > 3) then 0 else if c = 0 \<and> n = 3 then 1 else c)"

definition advance_generation :: "int \<Rightarrow> int \<Rightarrow> ndarray \<Rightarrow> ndarray" where
  "advance_generation W H g =
     map (\<lambda>x. map (\<lambda>y. life_rule (g ! x ! y) (count_live_neighbors W H g (int x) (int y)))
            [0..<nat H]) [0..<nat W]"

text \<open>Every cell of the array is 0 (DEAD) or 1 (ALIVE).\<close>

definition binary_grid :: "ndarray \<Rightarrow> bool" where
  "binary_grid a = list_all (list_all (\<lambda>c. c = 0 \<or> c = 1)) a"

text \<open>
  The loop invariant of \<^verbatim>\<open>next_generation\<close>: while row \<open>y\<close> is swept and the cells
  \<open>x < k\<close> of it are done, \<^verbatim>\<open>new_state\<close> holds the new value at every cell already
  visited and the prior value everywhere else.
\<close>

definition cell_next :: "int \<Rightarrow> int \<Rightarrow> ndarray \<Rightarrow> nat \<Rightarrow> nat \<Rightarrow> int" where
  "cell_next W H g x y = life_rule (g ! x ! y) (count_live_neighbors W H g (int x) (int y))"

definition swept :: "int \<Rightarrow> int \<Rightarrow> ndarray \<Rightarrow> nat \<Rightarrow> nat \<Rightarrow> ndarray \<Rightarrow> bool" where
  "swept W H g y k new =
     (has_shape new (nat W) (nat H) \<and>
      (\<forall>x' y'. x' < nat W \<longrightarrow> y' < nat H \<longrightarrow>
         new ! x' ! y' =
           (if y' < y \<or> (y' = y \<and> x' < k) then cell_next W H g x' y' else g ! x' ! y')))"

subsection \<open>Small concrete grids\<close>

text \<open>A configuration of 5 by 5 cells and grids of that shape, on which the
  general theorems are instantiated. A grid is written as the list of its columns
  \<open>x = 0, 1, ...\<close>, each listing \<open>y = 0, 1, ...\<close>.\<close>

definition small_config :: config where
  "small_config =
     \<lparr>width = 100, height = 100, n_cells_x = 5, n_cells_y = 5,
      cell_width = 20, cell_height = 20\<rparr>"

definition blinker_row :: ndarray where
  "blinker_row =
     [[0, 0, 0, 0, 0],
      [0, 0, 1, 0, 0],
      [0, 0, 1, 0, 0],
      [0, 0, 1, 0, 0],
      [0, 0, 0, 0, 0]]"

definition edge_grid :: ndarray where
  "edge_grid =
     [[0, 0, 0, 0, 1],
      [0, 0, 0, 0, 0],
      [0, 0, 1, 0, 0],
      [0, 0, 0, 0, 0],
      [1, 0, 0, 0, 1]]"

subsection \<open>Sequences of calls on the class\<close>

text \<open>A caller that calls \<^verbatim>\<open>GameConfig.get_instance()\<close> and \<^verbatim>\<open>GameConfig()\<close> in any order,
  catching the exception of a refused construction; the results of the
  \<^verbatim>\<open>get_instance\<close> calls are collected.\<close>

datatype call = GetInstance | Construct

fun get_instance_results :: "call list \<Rightarrow> py_state \<Rightarrow> (error + nat option) list" where
  "get_instance_results [] s = []"
| "get_instance_results (GetInstance # cs) s =
     (case get_instance s of (r, s') \<Rightarrow> r # get_instance_results cs s')"
| "get_instance_results (Construct # cs) s =
     (case GameConfig_init s of (r, s') \<Rightarrow> get_instance_results cs s')"

subsection \<open>Grids given by their live cells\<close>

text \<open>
  The grid of shape \<open>(W, H)\<close> whose cell \<open>(x, y)\<close> is 1 exactly when a predicate holds,
  or when \<open>(x, y)\<close> is in a list of live cells.
\<close>

definition alive :: "bool \<Rightarrow> int" where
  "alive b = (if b then 1 else 0)"

definition grid_of :: "int \<Rightarrow> int \<Rightarrow> (int \<Rightarrow> int \<Rightarrow> bool) \<Rightarrow> ndarray" where
  "grid_of W H P = map (\<lambda>x. map (\<lambda>y. alive (P (int x) (int y))) [0..<nat H]) [0..<nat W]"

definition grid_with :: "int \<Rightarrow> int \<Rightarrow> (int \<times> int) list \<Rightarrow> ndarray" where
  "grid_with W H live = grid_of W H (\<lambda>x y. (x, y) \<in> set live)"

text \<open>
  The patterns, placed anywhere on the torus: the horizontal three-cell line through
  the middle cell \<open>(cx, cy)\<close>, the vertical line through the same cell, and the
  2 by 2 block whose corner of least coordinates is \<open>(cx, cy)\<close>. Coordinates next to
  an edge wrap.
\<close>

definition blinker_horizontal :: "int \<Rightarrow> int \<Rightarrow> int \<Rightarrow> int \<Rightarrow> ndarray" where
  "blinker_horizontal W H cx cy =
     grid_with W H [((cx - 1) mod W, cy), (cx, cy), ((cx + 1) mod W, cy)]"

definition blinker_vertical :: "int \<Rightarrow> int \<Rightarrow> int \<Rightarrow> int \<Rightarrow> ndarray" where
  "blinker_vertical W H cx cy =
     grid_with W H [(cx, (cy - 1) mod H), (cx, cy), (cx, (cy + 1) mod H)]"

definition block :: "int \<Rightarrow> int \<Rightarrow> int \<Rightarrow> int \<Rightarrow> ndarray" where
  "block W H cx cy =
     grid_with W H
       [(cx, cy), ((cx + 1) mod W, cy), (cx, (cy + 1) mod H), ((cx + 1) mod W, (cy + 1) mod H)]"

text \<open>The same patterns on the 5 by 5 grid, written out.\<close>

definition blinker_column :: ndarray where
  "blinker_column =
     [[0, 0, 0, 0, 0],
      [0, 0, 0, 0, 0],
      [0, 1, 1, 1, 0],
      [0, 0, 0, 0, 0],
      [0, 0, 0, 0, 0]]"

definition block_grid :: ndarray where
  "block_grid =
     [[0, 0, 0, 0, 0],
      [0, 1, 1, 0, 0],
      [0, 1, 1, 0, 0],
      [0, 0, 0, 0, 0],
      [0, 0, 0, 0, 0]]"

text \<open>
  A pattern seen from its anchor: \<open>Q d e\<close> says whether the cell at the offsets
  \<open>d\<close>, \<open>e\<close> (taken modulo the dimensions) from \<open>(cx, cy)\<close> is alive, and
  \<open>ring_count\<close> counts live neighbours in these relative coordinates.
\<close>

definition shifted :: "int \<Rightarrow> int \<Rightarrow> int \<Rightarrow> int \<Rightarrow> (int \<Rightarrow> int \<Rightarrow> bool) \<Rightarrow> int \<Rightarrow> int \<Rightarrow> bool" where
  "shifted W H cx cy Q x y = Q ((x - cx) mod W) ((y - cy) mod H)"

definition ring_count :: "int \<Rightarrow> int \<Rightarrow> (int \<Rightarrow> int \<Rightarrow> bool) \<Rightarrow> int \<Rightarrow> int \<Rightarrow> int" where
  "ring_count W H Q d e =
     sum_list (map (\<lambda>(i, j). alive (Q ((d + i) mod W) ((e + j) mod H))) moore_offsets)"

definition blinker_h_rel :: "int \<Rightarrow> int \<Rightarrow> int \<Rightarrow> bool" where
  "blinker_h_rel W d e = (e = 0 \<and> (d = 0 \<or> d = 1 \<or> d = W - 1))"

definition blinker_v_rel :: "int \<Rightarrow> int \<Rightarrow> int \<Rightarrow> bool" where
  "blinker_v_rel H d e = (d = 0 \<and> (e = 0 \<or> e = 1 \<or> e = H - 1))"

definition block_rel :: "int \<Rightarrow> int \<Rightarrow> bool" where
  "block_rel d e = ((d = 0 \<or> d = 1) \<and> (e = 0 \<or> e = 1))"

section \<open>Properties\<close>

subsection \<open>The primitives on well-shaped arrays\<close>

lemma ebind_Inr [simp]: "ebind (Inr v) f = f v"
  by (simp add: ebind_def)

lemma ebind_Inl [simp]: "ebind (Inl e) f = Inl e"
  by (simp add: ebind_def)

lemma neighbor_offsets_eq: "neighbor_offsets = moore_offsets"
  by (simp add: neighbor_offsets_def moore_offsets_def)

lemma py_range_upt: "py_range n = map int [0..<nat n]"
proof (cases "0 \<le> n")
  case True
  then obtain k where n: "n = int k" using nonneg_int_cases by blast
  have "[0..int k - 1] = map int [0..<k]"
  proof (induction k)
    case 0 show ?case by simp
  next
    case (Suc k)
    have "[0..int (Suc k) - 1] = [0..int k - 1] @ [int k]"
      using upto_rec2[of 0 "int k"] by simp
    with Suc show ?case by simp
  qed
  with n show ?thesis by (simp add: py_range_def)
next
  case False then show ?thesis by (simp add: py_range_def)
qed

lemma for_loop_append:
  "for_loop (xs @ ys) body s = ebind (for_loop xs body s) (for_loop ys body)"
  by (induction xs arbitrary: s) (auto simp: ebind_def split: sum.splits)

lemma comprehension_total:
  "(\<And>x. x \<in> set xs \<Longrightarrow> f x = Inr (g x)) \<Longrightarrow> comprehension f xs = Inr (map g xs)"
  by (induction xs) auto

lemma has_shape_nth:
  "has_shape a n0 n1 \<Longrightarrow> i < n0 \<Longrightarrow> length (a ! i) = n1"
  by (auto simp: has_shape_def list_all_length)

lemma has_shape_length: "has_shape a n0 n1 \<Longrightarrow> length a = n0"
  by (simp add: has_shape_def)

lemma np_index_in_range: "0 \<le> i \<Longrightarrow> i < int n \<Longrightarrow> np_index n i = Inr (nat i)"
  by (simp add: np_index_def)

lemma np_get_in_range:
  assumes "has_shape a n0 n1" "0 \<le> i" "i < int n0" "0 \<le> j" "j < int n1"
  shows "np_get a i j = Inr (a ! nat i ! nat j)"
proof -
  have "length a = n0" using assms(1) by (rule has_shape_length)
  moreover have "length (a ! nat i) = n1"
    using assms by (intro has_shape_nth[OF assms(1)]) simp
  ultimately show ?thesis using assms by (simp add: np_get_def np_index_in_range)
qed

lemma np_set_in_range:
  assumes "has_shape a n0 n1" "0 \<le> i" "i < int n0" "0 \<le> j" "j < int n1"
  shows "np_set a i j v = Inr (a[nat i := (a ! nat i)[nat j := v]])"
proof -
  have "length a = n0" using assms(1) by (rule has_shape_length)
  moreover have "length (a ! nat i) = n1"
    using assms by (intro has_shape_nth[OF assms(1)]) simp
  ultimately show ?thesis using assms by (simp add: np_set_def np_index_in_range)
qed

lemma neighbor_cell_wrapped:
  assumes "0 < n_cells_x cfg" "0 < n_cells_y cfg"
    and "has_shape (state self) (nat (n_cells_x cfg)) (nat (n_cells_y cfg))"
  shows "neighbor_cell cfg self x y (i, j) =
           Inr (wrapped_cell (n_cells_x cfg) (n_cells_y cfg) (state self) (x + i) (y + j))"
proof -
  have "0 \<le> (x + i) mod n_cells_x cfg" "(x + i) mod n_cells_x cfg < int (nat (n_cells_x cfg))"
       "0 \<le> (y + j) mod n_cells_y cfg" "(y + j) mod n_cells_y cfg < int (nat (n_cells_y cfg))"
    using assms(1,2) by simp_all
  from np_get_in_range[OF assms(3) this] assms(1,2)
  show ?thesis by (simp add: neighbor_cell_def py_mod_def wrapped_cell_def)
qed

lemma count_neighbors_eq:
  assumes "0 < n_cells_x cfg" "0 < n_cells_y cfg"
    and "has_shape (state self) (nat (n_cells_x cfg)) (nat (n_cells_y cfg))"
  shows "count_neighbors cfg self x y =
           Inr (count_live_neighbors (n_cells_x cfg) (n_cells_y cfg) (state self) x y)"
proof -
  have "comprehension (neighbor_cell cfg self x y) neighbor_offsets =
          Inr (map (\<lambda>(dx, dy). wrapped_cell (n_cells_x cfg) (n_cells_y cfg) (state self) (x + dx) (y + dy))
                 neighbor_offsets)"
    by (rule comprehension_total) (auto simp: neighbor_cell_wrapped[OF assms])
  then show ?thesis
    by (simp add: count_neighbors_def count_live_neighbors_def neighbor_offsets_eq)
qed

subsection \<open>The loops of next_generation keep the invariant\<close>

lemma has_shape_update:
  "has_shape a n0 n1 \<Longrightarrow> i < n0 \<Longrightarrow> has_shape (a[i := (a ! i)[j := v]]) n0 n1"
  by (auto simp: has_shape_def list_all_length nth_list_update)

lemma swept_set:
  assumes sw: "swept W H g y k new" and k: "k < nat W" and y: "y < nat H"
    and v: "v = cell_next W H g k y"
  shows "swept W H g y (Suc k) (new[k := (new ! k)[y := v]])"
proof -
  have sh: "has_shape new (nat W) (nat H)" using sw by (simp add: swept_def)
  have len: "length new = nat W" using sh by (rule has_shape_length)
  have lenk: "length (new ! k) = nat H" using sh k by (rule has_shape_nth)
  have cells: "\<And>x' y'. x' < nat W \<Longrightarrow> y' < nat H \<Longrightarrow>
      new ! x' ! y' = (if y' < y \<or> (y' = y \<and> x' < k) then cell_next W H g x' y' else g ! x' ! y')"
    using sw by (simp add: swept_def)
  show ?thesis
    unfolding swept_def
  proof (intro conjI allI impI)
    show "has_shape (new[k := (new ! k)[y := v]]) (nat W) (nat H)"
      using sh k by (rule has_shape_update)
  next
    fix x' y' assume x': "x' < nat W" and y': "y' < nat H"
    show "new[k := (new ! k)[y := v]] ! x' ! y' =
        (if y' < y \<or> (y' = y \<and> x' < Suc k) then cell_next W H g x' y' else g ! x' ! y')"
    proof (cases "x' = k")
      case True
      then show ?thesis
        using cells[OF x' y'] len lenk k y y' v
        by (cases "y' = y") (auto simp: nth_list_update)
    next
      case False
      then show ?thesis
        using cells[OF x' y'] len x'
        by (auto simp: nth_list_update)
    qed
  qed
qed

lemma swept_keep:
  assumes sw: "swept W H g y k new" and k: "k < nat W" and y: "y < nat H"
    and v: "g ! k ! y = cell_next W H g k y"
  shows "swept W H g y (Suc k) new"
proof -
  have "new ! k ! y = g ! k ! y" using sw k y by (simp add: swept_def)
  then have "new[k := (new ! k)[y := cell_next W H g k y]] = new"
    using v by (metis list_update_id)
  with swept_set[OF sw k y refl] show ?thesis by simp
qed

lemma update_cell_swept:
  assumes W: "0 < n_cells_x cfg" and H: "0 < n_cells_y cfg"
    and sh: "has_shape (state self) (nat (n_cells_x cfg)) (nat (n_cells_y cfg))"
    and sw: "swept (n_cells_x cfg) (n_cells_y cfg) (state self) y k new"
    and k: "k < nat (n_cells_x cfg)" and y: "y < nat (n_cells_y cfg)"
  shows "\<exists>new'. update_cell cfg self (int y) (int k) new = Inr new' \<and>
           swept (n_cells_x cfg) (n_cells_y cfg) (state self) y (Suc k) new'"
proof -
  let ?W = "n_cells_x cfg" and ?H = "n_cells_y cfg" and ?g = "state self"
  let ?n = "count_live_neighbors ?W ?H ?g (int k) (int y)"
  have shn: "has_shape new (nat ?W) (nat ?H)" using sw by (simp add: swept_def)
  have rng: "0 \<le> int k" "int k < int (nat ?W)" "0 \<le> int y" "int y < int (nat ?H)"
    using k y W H by simp_all
  have get: "np_get ?g (int k) (int y) = Inr (?g ! k ! y)"
    using np_get_in_range[OF sh rng] by simp
  have set: "\<And>v. np_set new (int k) (int y) v = Inr (new[k := (new ! k)[y := v]])"
    using np_set_in_range[OF shn rng] by simp
  have cnt: "count_neighbors cfg self (int k) (int y) = Inr ?n"
    by (rule count_neighbors_eq[OF W H sh])
  consider (die) "?g ! k ! y = 1 \<and> (?n < 2 \<or> ?n > 3)"
    | (born) "\<not> (?g ! k ! y = 1 \<and> (?n < 2 \<or> ?n > 3))" "?g ! k ! y = 0 \<and> ?n = 3"
    | (same) "\<not> (?g ! k ! y = 1 \<and> (?n < 2 \<or> ?n > 3))" "\<not> (?g ! k ! y = 0 \<and> ?n = 3)"
    by blast
  then show ?thesis
  proof cases
    case die
    then have "update_cell cfg self (int y) (int k) new = Inr (new[k := (new ! k)[y := 0]])"
      by (simp add: update_cell_def cnt get set)
    moreover have "0 = cell_next ?W ?H ?g k y"
      using die by (simp add: cell_next_def life_rule_def)
    ultimately show ?thesis using swept_set[OF sw k y] by blast
  next
    case born
    then have "update_cell cfg self (int y) (int k) new = Inr (new[k := (new ! k)[y := 1]])"
      by (simp add: update_cell_def cnt get set)
    moreover have "1 = cell_next ?W ?H ?g k y"
      using born by (simp add: cell_next_def life_rule_def)
    ultimately show ?thesis using swept_set[OF sw k y] by blast
  next
    case same
    then have "update_cell cfg self (int y) (int k) new = Inr new"
      by (auto simp: update_cell_def cnt get)
    moreover have "?g ! k ! y = cell_next ?W ?H ?g k y"
      using same by (simp add: cell_next_def life_rule_def)
    ultimately show ?thesis using swept_keep[OF sw k y] by blast
  qed
qed

lemma inner_loop_swept:
  assumes W: "0 < n_cells_x cfg" and H: "0 < n_cells_y cfg"
    and sh: "has_shape (state self) (nat (n_cells_x cfg)) (nat (n_cells_y cfg))"
    and sw: "swept (n_cells_x cfg) (n_cells_y cfg) (state self) y 0 new"
    and y: "y < nat (n_cells_y cfg)"
  shows "k \<le> nat (n_cells_x cfg) \<Longrightarrow>
         \<exists>new'. for_loop (map int [0..<k]) (\<lambda>x. update_cell cfg self (int y) x) new = Inr new' \<and>
           swept (n_cells_x cfg) (n_cells_y cfg) (state self) y k new'"
proof (induction k)
  case 0
  then show ?case using sw by simp
next
  case (Suc k)
  then obtain new1 where l1: "for_loop (map int [0..<k]) (\<lambda>x. update_cell cfg self (int y) x) new = Inr new1"
    and s1: "swept (n_cells_x cfg) (n_cells_y cfg) (state self) y k new1" by auto
  from Suc.prems have k: "k < nat (n_cells_x cfg)" by simp
  from update_cell_swept[OF W H sh s1 k y] obtain new2 where
    "update_cell cfg self (int y) (int k) new1 = Inr new2"
    "swept (n_cells_x cfg) (n_cells_y cfg) (state self) y (Suc k) new2" by blast
  then show ?case using l1 by (simp add: for_loop_append)
qed

lemma swept_row_done:
  "swept W H g y (nat W) new \<Longrightarrow> swept W H g (Suc y) 0 new"
  by (auto simp: swept_def)

lemma outer_loop_swept:
  assumes W: "0 < n_cells_x cfg" and H: "0 < n_cells_y cfg"
    and sh: "has_shape (state self) (nat (n_cells_x cfg)) (nat (n_cells_y cfg))"
  shows "m \<le> nat (n_cells_y cfg) \<Longrightarrow>
         \<exists>new'. for_loop (map int [0..<m])
                  (\<lambda>y. for_loop (py_range (n_cells_x cfg)) (\<lambda>x. update_cell cfg self y x))
                  (state self) = Inr new' \<and>
           swept (n_cells_x cfg) (n_cells_y cfg) (state self) m 0 new'"
proof (induction m)
  case 0
  then show ?case using sh by (simp add: swept_def)
next
  case (Suc m)
  then obtain new1 where l1: "for_loop (map int [0..<m])
                  (\<lambda>y. for_loop (py_range (n_cells_x cfg)) (\<lambda>x. update_cell cfg self y x))
                  (state self) = Inr new1"
    and s1: "swept (n_cells_x cfg) (n_cells_y cfg) (state self) m 0 new1" by auto
  from Suc.prems have m: "m < nat (n_cells_y cfg)" by simp
  from inner_loop_swept[OF W H sh s1 m order_refl] obtain new2 where
    "for_loop (map int [0..<nat (n_cells_x cfg)]) (\<lambda>x. update_cell cfg self (int m) x) new1 = Inr new2"
    "swept (n_cells_x cfg) (n_cells_y cfg) (state self) m (nat (n_cells_x cfg)) new2" by blast
  then show ?case using l1 by (auto simp: for_loop_append py_range_upt dest: swept_row_done)
qed

lemma swept_all:
  assumes "swept W H g (nat H) 0 new"
  shows "new = advance_generation W H g"
proof (rule nth_equalityI)
  have sh: "has_shape new (nat W) (nat H)" using assms by (simp add: swept_def)
  show "length new = length (advance_generation W H g)"
    using has_shape_length[OF sh] by (simp add: advance_generation_def)
  fix x assume "x < length new"
  then have x: "x < nat W" using has_shape_length[OF sh] by simp
  have lx: "length (new ! x) = nat H" using sh x by (rule has_shape_nth)
  show "new ! x = advance_generation W H g ! x"
  proof (rule nth_equalityI)
    show "length (new ! x) = length (advance_generation W H g ! x)"
      using lx x by (simp add: advance_generation_def)
    fix y assume "y < length (new ! x)"
    then have y: "y < nat H" using lx by simp
    then show "new ! x ! y = advance_generation W H g ! x ! y"
      using assms x by (simp add: swept_def advance_generation_def cell_next_def)
  qed
qed

lemma next_generation_eq:
  assumes W: "0 < n_cells_x cfg" and H: "0 < n_cells_y cfg"
    and sh: "has_shape (state self) (nat (n_cells_x cfg)) (nat (n_cells_y cfg))"
  shows "next_generation cfg self =
           Inr (self\<lparr>state := advance_generation (n_cells_x cfg) (n_cells_y cfg) (state self)\<rparr>)"
proof -
  from outer_loop_swept[OF W H sh order_refl] obtain new' where
    "for_loop (map int [0..<nat (n_cells_y cfg)])
        (\<lambda>y. for_loop (py_range (n_cells_x cfg)) (\<lambda>x. update_cell cfg self y x))
        (state self) = Inr new'"
    "swept (n_cells_x cfg) (n_cells_y cfg) (state self) (nat (n_cells_y cfg)) 0 new'" by blast
  then show ?thesis
    by (simp add: next_generation_def np_copy_def py_range_upt swept_all)
qed

lemma for_loop_skip: "for_loop ys (\<lambda>y. for_loop [] (body y)) s = Inr s"
  by (induction ys) auto

lemma has_shape_advance: "has_shape (advance_generation W H g) (nat W) (nat H)"
  by (simp add: has_shape_def advance_generation_def list_all_length)

lemma has_shape_unique_empty_rows:
  assumes "has_shape a n0 0" shows "a = map (\<lambda>x. []) [0..<n0]"
proof (rule nth_equalityI)
  show "length a = length (map (\<lambda>x. []) [0..<n0])" using assms by (simp add: has_shape_def)
  fix i assume "i < length a"
  then show "a ! i = map (\<lambda>x. []) [0..<n0] ! i"
    using assms by (simp add: has_shape_def list_all_length)
qed

lemma next_generation_refines:
  assumes sh: "has_shape (state self) (nat (n_cells_x cfg)) (nat (n_cells_y cfg))"
  shows "next_generation cfg self =
           Inr (self\<lparr>state := advance_generation (n_cells_x cfg) (n_cells_y cfg) (state self)\<rparr>)"
proof -
  consider (pos) "0 < n_cells_x cfg" "0 < n_cells_y cfg"
    | (nox) "n_cells_x cfg \<le> 0" | (noy) "n_cells_y cfg \<le> 0" by linarith
  then show ?thesis
  proof cases
    case pos
    then show ?thesis using sh by (rule next_generation_eq)
  next
    case nox
    then have "state self = []" using sh by (simp add: has_shape_def)
    then show ?thesis using nox
      by (simp add: next_generation_def py_range_upt for_loop_skip np_copy_def advance_generation_def)
  next
    case noy
    then have "state self = map (\<lambda>x. []) [0..<nat (n_cells_x cfg)]"
      using sh has_shape_unique_empty_rows by simp
    then show ?thesis using noy
      by (simp add: next_generation_def py_range_upt np_copy_def advance_generation_def)
  qed
qed

lemma advance_generation_nth:
  "x < nat W \<Longrightarrow> y < nat H \<Longrightarrow>
     advance_generation W H g ! x ! y =
       life_rule (g ! x ! y) (count_live_neighbors W H g (int x) (int y))"
  by (simp add: advance_generation_def)

subsection \<open>Facts about the small grids\<close>

lemma small_config_cells [simp]: "n_cells_x small_config = 5" "n_cells_y small_config = 5"
  by (simp_all add: small_config_def)

lemma has_shape_blinker_row: "has_shape blinker_row 5 5"
  by (simp add: has_shape_def blinker_row_def)

lemma has_shape_edge_grid: "has_shape edge_grid 5 5"
  by (simp add: has_shape_def edge_grid_def)

subsection \<open>Binary grids and the neighbour count\<close>

lemma binary_grid_nth:
  "binary_grid a \<Longrightarrow> i < length a \<Longrightarrow> j < length (a ! i) \<Longrightarrow> a ! i ! j = 0 \<or> a ! i ! j = 1"
  by (simp add: binary_grid_def list_all_length)

lemma wrapped_cell_binary:
  assumes W: "0 < W" and H: "0 < H" and sh: "has_shape g (nat W) (nat H)" and bin: "binary_grid g"
  shows "wrapped_cell W H g a b = 0 \<or> wrapped_cell W H g a b = 1"
proof -
  have i: "nat (a mod W) < nat W" using W by simp
  have "nat (a mod W) < length g" using i has_shape_length[OF sh] by simp
  moreover have "nat (b mod H) < length (g ! nat (a mod W))"
    using has_shape_nth[OF sh i] H by simp
  ultimately show ?thesis unfolding wrapped_cell_def by (rule binary_grid_nth[OF bin])
qed

lemma count_live_neighbors_sum:
  "count_live_neighbors W H g x y =
     wrapped_cell W H g (x - 1) (y - 1) + wrapped_cell W H g (x - 1) y +
     wrapped_cell W H g (x - 1) (y + 1) + wrapped_cell W H g x (y - 1) +
     wrapped_cell W H g x (y + 1) + wrapped_cell W H g (x + 1) (y - 1) +
     wrapped_cell W H g (x + 1) y + wrapped_cell W H g (x + 1) (y + 1)"
  by (simp add: count_live_neighbors_def moore_offsets_def)

lemma count_live_neighbors_bounds:
  assumes W: "0 < W" and H: "0 < H" and sh: "has_shape g (nat W) (nat H)" and bin: "binary_grid g"
  shows "0 \<le> count_live_neighbors W H g x y \<and> count_live_neighbors W H g x y \<le> 8"
proof -
  note b = wrapped_cell_binary[OF W H sh bin]
  have "0 \<le> wrapped_cell W H g a b \<and> wrapped_cell W H g a b \<le> 1" for a b
    using b[of a b] by auto
  from this[of "x - 1" "y - 1"] this[of "x - 1" y] this[of "x - 1" "y + 1"]
    this[of x "y - 1"] this[of x "y + 1"]
    this[of "x + 1" "y - 1"] this[of "x + 1" y] this[of "x + 1" "y + 1"]
  show ?thesis unfolding count_live_neighbors_sum by linarith
qed

subsection \<open>Shape through construction and generations\<close>

lemma generations_shape:
  assumes "has_shape (state self) (nat (n_cells_x cfg)) (nat (n_cells_y cfg))"
  shows "\<exists>self'. generations cfg n self = Inr self' \<and>
           has_shape (state self') (nat (n_cells_x cfg)) (nat (n_cells_y cfg))"
  using assms
proof (induction n arbitrary: self)
  case 0
  then show ?case by simp
next
  case (Suc n)
  let ?next = "self\<lparr>state := advance_generation (n_cells_x cfg) (n_cells_y cfg) (state self)\<rparr>"
  have "has_shape (state ?next) (nat (n_cells_x cfg)) (nat (n_cells_y cfg))"
    by (simp add: has_shape_advance)
  from Suc.IH[OF this] show ?case
    by (simp add: next_generation_refines[OF Suc.prems])
qed

lemma np_random_choice_shape:
  assumes "np_random_choice (n0, n1) env = Inr a"
  shows "has_shape a (nat n0) (nat n1) \<and> binary_grid a"
  using assms
  by (auto simp: np_random_choice_def has_shape_def binary_grid_def list_all_length
      split: if_splits option.splits)

lemma GameState_init_shape:
  assumes "GameState_init cfg env = Inr self"
  shows "has_shape (state self) (nat (n_cells_x cfg)) (nat (n_cells_y cfg)) \<and> binary_grid (state self)"
proof -
  from assms obtain a where a: "np_random_choice (n_cells_x cfg, n_cells_y cfg) env = Inr a"
    and s: "self = \<lparr>state = a\<rparr>"
    by (auto simp: GameState_init_def ebind_def split: sum.splits)
  from np_random_choice_shape[OF a] s show ?thesis by simp
qed

lemma GameState_init_module:
  "alloc_error env (40, 30) = None \<Longrightarrow>
   GameState_init module_config env =
     Inr \<lparr>state = map (\<lambda>i. map (\<lambda>j. if draw env i j then 1 else 0) [0..<30]) [0..<40]\<rparr>"
  by (simp add: GameState_init_def np_random_choice_def module_config_def)

subsection \<open>The singleton slot\<close>

lemma GameConfig_init_fresh:
  "GameConfig_instance s = None \<Longrightarrow>
     GameConfig_init s =
       (Inr (fresh s),
        s\<lparr>fresh := Suc (fresh s),
          objects := (objects s)(fresh s \<mapsto> module_config),
          GameConfig_instance := Some (fresh s)\<rparr>)"
  by (simp add: GameConfig_init_def py_floordiv_def module_config_def Let_def)

lemma GameConfig_init_exists:
  "GameConfig_instance s = Some a \<Longrightarrow>
     GameConfig_init s = (Inl SingletonError, s\<lparr>fresh := Suc (fresh s)\<rparr>)"
  by (simp add: GameConfig_init_def Let_def)

lemma get_instance_exists:
  "GameConfig_instance s = Some a \<Longrightarrow> get_instance s = (Inr (Some a), s)"
  by (simp add: get_instance_def)

lemma get_instance_fresh:
  "GameConfig_instance s = None \<Longrightarrow>
     get_instance s =
       (Inr (Some (fresh s)),
        s\<lparr>fresh := Suc (fresh s),
          objects := (objects s)(fresh s \<mapsto> module_config),
          GameConfig_instance := Some (fresh s)\<rparr>)"
  by (simp add: get_instance_def GameConfig_init_fresh)

lemma results_with_instance:
  "GameConfig_instance s = Some a \<Longrightarrow>
     \<forall>r \<in> set (get_instance_results cs s). r = Inr (Some a)"
proof (induction cs arbitrary: s)
  case Nil
  then show ?case by simp
next
  case (Cons c cs)
  show ?case
  proof (cases c)
    case GetInstance
    then show ?thesis using Cons by (simp add: get_instance_exists)
  next
    case Construct
    have "GameConfig_instance (s\<lparr>fresh := Suc (fresh s)\<rparr>) = Some a" using Cons.prems by simp
    from Cons.IH[OF this] show ?thesis
      using Construct Cons.prems by (simp add: GameConfig_init_exists)
  qed
qed

lemma results_same_instance:
  "\<exists>a. \<forall>r \<in> set (get_instance_results cs s). r = Inr (Some a)"
proof (cases "GameConfig_instance s")
  case (Some a)
  then show ?thesis using results_with_instance by blast
next
  case None
  show ?thesis
  proof (cases cs)
    case Nil
    then show ?thesis by simp
  next
    case (Cons c cs')
    let ?s' = "s\<lparr>fresh := Suc (fresh s),
          objects := (objects s)(fresh s \<mapsto> module_config),
          GameConfig_instance := Some (fresh s)\<rparr>"
    have "GameConfig_instance ?s' = Some (fresh s)" by simp
    from results_with_instance[OF this, of cs']
    show ?thesis using Cons None
      by (cases c) (auto simp: get_instance_fresh GameConfig_init_fresh)
  qed
qed

subsection \<open>Patterns on the torus\<close>

lemma wrap_succ: "0 \<le> d \<Longrightarrow> d < W \<Longrightarrow> (d + 1) mod W = (if d = W - 1 then 0 else d + 1)" for d W :: int
  by (auto simp: mod_pos_pos_trivial)

lemma wrap_pred: "0 \<le> d \<Longrightarrow> d < W \<Longrightarrow> (d - 1) mod W = (if d = 0 then W - 1 else d - 1)" for d W :: int
  by (auto simp: mod_pos_pos_trivial zmod_minus1)

lemma wrap_id: "0 \<le> d \<Longrightarrow> d < W \<Longrightarrow> d mod W = d" for d W :: int
  by simp

lemma ring_count_wrapped:
  assumes "0 \<le> d" "d < W" "0 \<le> e" "e < H"
  shows "ring_count W H Q d e =
      alive (Q (if d = 0 then W - 1 else d - 1) (if e = 0 then H - 1 else e - 1)) +
      alive (Q (if d = 0 then W - 1 else d - 1) e) +
      alive (Q (if d = 0 then W - 1 else d - 1) (if e = H - 1 then 0 else e + 1)) +
      alive (Q d (if e = 0 then H - 1 else e - 1)) +
      alive (Q d (if e = H - 1 then 0 else e + 1)) +
      alive (Q (if d = W - 1 then 0 else d + 1) (if e = 0 then H - 1 else e - 1)) +
      alive (Q (if d = W - 1 then 0 else d + 1) e) +
      alive (Q (if d = W - 1 then 0 else d + 1) (if e = H - 1 then 0 else e + 1))"
proof -
  have "(d - 1) mod W = (if d = 0 then W - 1 else d - 1)"
       "(d + 1) mod W = (if d = W - 1 then 0 else d + 1)" "d mod W = d"
       "(e - 1) mod H = (if e = 0 then H - 1 else e - 1)"
       "(e + 1) mod H = (if e = H - 1 then 0 else e + 1)" "e mod H = e"
    using assms by (simp_all only: wrap_succ wrap_pred wrap_id)
  then show ?thesis
    by (simp only: ring_count_def moore_offsets_def list.map prod.case sum_list.Cons sum_list.Nil
        add_0_right add_0 add.assoc add_uminus_conv_diff)
qed

lemma blinker_core:
  assumes "4 \<le> W" "3 \<le> H" "0 \<le> d" "d < W" "0 \<le> e" "e < H"
  shows "life_rule (alive (blinker_h_rel W d e)) (ring_count W H (blinker_h_rel W) d e) =
           alive (blinker_v_rel H d e)"
proof -
  have d: "d = 0 \<or> d = 1 \<or> d = 2 \<or> d = W - 2 \<or> d = W - 1 \<or> (2 < d \<and> d < W - 2)"
    using assms by linarith
  have e: "e = 0 \<or> e = 1 \<or> e = H - 1 \<or> (1 < e \<and> e < H - 1)"
    using assms by linarith
  show ?thesis
    unfolding ring_count_wrapped[OF assms(3-6)]
    using d e assms(1,2)
    by (elim disjE; simp add: blinker_h_rel_def blinker_v_rel_def alive_def life_rule_def)
qed

lemma block_core:
  assumes "4 \<le> W" "4 \<le> H" "0 \<le> d" "d < W" "0 \<le> e" "e < H"
  shows "life_rule (alive (block_rel d e)) (ring_count W H block_rel d e) = alive (block_rel d e)"
proof -
  have d: "d = 0 \<or> d = 1 \<or> d = 2 \<or> d = W - 1 \<or> (2 < d \<and> d < W - 1)"
    using assms by linarith
  have e: "e = 0 \<or> e = 1 \<or> e = 2 \<or> e = H - 1 \<or> (2 < e \<and> e < H - 1)"
    using assms by linarith
  show ?thesis
    unfolding ring_count_wrapped[OF assms(3-6)]
    using d e assms(1,2)
    by (elim disjE; simp add: block_rel_def alive_def life_rule_def)
qed

lemma grid_of_shape: "has_shape (grid_of W H P) (nat W) (nat H)"
  by (simp add: grid_of_def has_shape_def list_all_length)

lemma grid_of_binary: "binary_grid (grid_of W H P)"
  by (simp add: grid_of_def binary_grid_def list_all_length alive_def)

lemma grid_of_nth:
  "x < nat W \<Longrightarrow> y < nat H \<Longrightarrow> grid_of W H P ! x ! y = alive (P (int x) (int y))"
  by (simp add: grid_of_def)

lemma grid_of_cong:
  assumes "\<And>x y. 0 \<le> x \<Longrightarrow> x < W \<Longrightarrow> 0 \<le> y \<Longrightarrow> y < H \<Longrightarrow> P x y = P' x y"
  shows "grid_of W H P = grid_of W H P'"
  unfolding grid_of_def
  by (intro map_cong refl arg_cong[where f = alive] assms) auto

lemma wrapped_cell_grid_of:
  assumes "0 < W" "0 < H"
  shows "wrapped_cell W H (grid_of W H P) a b = alive (P (a mod W) (b mod H))"
proof -
  have "nat (a mod W) < nat W" "nat (b mod H) < nat H" using assms by simp_all
  from grid_of_nth[OF this] assms show ?thesis by (simp add: wrapped_cell_def)
qed

lemma shifted_neighbor:
  "shifted W H cx cy Q ((x + i) mod W) ((y + j) mod H) =
     Q (((x - cx) mod W + i) mod W) (((y - cy) mod H + j) mod H)"
proof -
  have "((x + i) mod W - cx) mod W = ((x - cx) mod W + i) mod W" for x i cx W :: int
    by (simp add: mod_simps algebra_simps)
  then show ?thesis by (simp add: shifted_def)
qed

lemma count_shifted:
  assumes "0 < W" "0 < H"
  shows "count_live_neighbors W H (grid_of W H (shifted W H cx cy Q)) x y =
           ring_count W H Q ((x - cx) mod W) ((y - cy) mod H)"
  unfolding count_live_neighbors_def ring_count_def
  by (simp add: wrapped_cell_grid_of[OF assms] shifted_neighbor)

lemma advance_shifted:
  assumes W: "0 < W" and H: "0 < H"
    and core: "\<And>d e. 0 \<le> d \<Longrightarrow> d < W \<Longrightarrow> 0 \<le> e \<Longrightarrow> e < H \<Longrightarrow>
                 life_rule (alive (Q d e)) (ring_count W H Q d e) = alive (Q' d e)"
  shows "advance_generation W H (grid_of W H (shifted W H cx cy Q)) =
           grid_of W H (shifted W H cx cy Q')"
proof -
  have cell: "life_rule (grid_of W H (shifted W H cx cy Q) ! x ! y)
                (count_live_neighbors W H (grid_of W H (shifted W H cx cy Q)) (int x) (int y)) =
              alive (shifted W H cx cy Q' (int x) (int y))"
    if "x < nat W" "y < nat H" for x y
  proof -
    have "0 \<le> (int x - cx) mod W" "(int x - cx) mod W < W"
         "0 \<le> (int y - cy) mod H" "(int y - cy) mod H < H"
      using W H by simp_all
    from core[OF this] show ?thesis
      by (simp add: grid_of_nth[OF that] count_shifted[OF W H] shifted_def)
  qed
  show ?thesis
    unfolding advance_generation_def grid_of_def[of W H "shifted W H cx cy Q'"]
    by (intro map_cong refl) (simp add: cell)
qed

lemma ring_diff:
  "0 \<le> x \<Longrightarrow> x < W \<Longrightarrow> 0 \<le> c \<Longrightarrow> c < W \<Longrightarrow>
     (x - c) mod W = (if c \<le> x then x - c else x - c + W)" for x c W :: int
proof (cases "c \<le> x")
  case True
  assume "0 \<le> x" "x < W" "0 \<le> c" "c < W"
  with True show ?thesis by (simp add: mod_pos_pos_trivial)
next
  case False
  assume a: "0 \<le> x" "x < W" "0 \<le> c" "c < W"
  have "(x - c + W) mod W = x - c + W"
    using a False by (intro mod_pos_pos_trivial) simp_all
  moreover have "(x - c + W) mod W = (x - c) mod W" by simp
  ultimately show ?thesis using False by simp
qed

lemma ring_same:
  "0 \<le> x \<Longrightarrow> x < W \<Longrightarrow> 0 \<le> c \<Longrightarrow> c < W \<Longrightarrow> ((x - c) mod W = 0) = (x = c)" for x c W :: int
  by (auto simp: ring_diff)

lemma ring_next:
  "2 \<le> W \<Longrightarrow> 0 \<le> x \<Longrightarrow> x < W \<Longrightarrow> 0 \<le> c \<Longrightarrow> c < W \<Longrightarrow>
     ((x - c) mod W = 1) = (x = (c + 1) mod W)" for x c W :: int
  by (auto simp: ring_diff wrap_succ)

lemma ring_prev:
  "2 \<le> W \<Longrightarrow> 0 \<le> x \<Longrightarrow> x < W \<Longrightarrow> 0 \<le> c \<Longrightarrow> c < W \<Longrightarrow>
     ((x - c) mod W = W - 1) = (x = (c - 1) mod W)" for x c W :: int
  by (auto simp: ring_diff wrap_pred)

lemma blinker_horizontal_shifted:
  assumes "2 \<le> W" "0 \<le> cx" "cx < W" "0 \<le> cy" "cy < H"
  shows "blinker_horizontal W H cx cy = grid_of W H (shifted W H cx cy (blinker_h_rel W))"
  unfolding blinker_horizontal_def grid_with_def
proof (rule grid_of_cong)
  fix x y :: int assume "0 \<le> x" "x < W" "0 \<le> y" "y < H"
  then show "((x, y) \<in> set [((cx - 1) mod W, cy), (cx, cy), ((cx + 1) mod W, cy)]) =
        shifted W H cx cy (blinker_h_rel W) x y"
    using assms
    by (auto simp: shifted_def blinker_h_rel_def ring_same ring_next ring_prev)
qed

lemma blinker_vertical_shifted:
  assumes "2 \<le> H" "0 \<le> cx" "cx < W" "0 \<le> cy" "cy < H"
  shows "blinker_vertical W H cx cy = grid_of W H (shifted W H cx cy (blinker_v_rel H))"
  unfolding blinker_vertical_def grid_with_def
proof (rule grid_of_cong)
  fix x y :: int assume "0 \<le> x" "x < W" "0 \<le> y" "y < H"
  then show "((x, y) \<in> set [(cx, (cy - 1) mod H), (cx, cy), (cx, (cy + 1) mod H)]) =
        shifted W H cx cy (blinker_v_rel H) x y"
    using assms
    by (auto simp: shifted_def blinker_v_rel_def ring_same ring_next ring_prev)
qed

lemma block_shifted:
  assumes "2 \<le> W" "2 \<le> H" "0 \<le> cx" "cx < W" "0 \<le> cy" "cy < H"
  shows "block W H cx cy = grid_of W H (shifted W H cx cy block_rel)"
  unfolding block_def grid_with_def
proof (rule grid_of_cong)
  fix x y :: int assume "0 \<le> x" "x < W" "0 \<le> y" "y < H"
  then show "((x, y) \<in> set [(cx, cy), ((cx + 1) mod W, cy), (cx, (cy + 1) mod H),
                 ((cx + 1) mod W, (cy + 1) mod H)]) =
        shifted W H cx cy block_rel x y"
    using assms
    by (auto simp: shifted_def block_rel_def ring_same ring_next)
qed

lemma advance_blinker:
  assumes "4 \<le> W" "3 \<le> H" "0 \<le> cx" "cx < W" "0 \<le> cy" "cy < H"
  shows "advance_generation W H (blinker_horizontal W H cx cy) = blinker_vertical W H cx cy"
proof -
  have W: "0 < W" "2 \<le> W" and H: "0 < H" "2 \<le> H" using assms by simp_all
  have "advance_generation W H (grid_of W H (shifted W H cx cy (blinker_h_rel W))) =
          grid_of W H (shifted W H cx cy (blinker_v_rel H))"
    using W(1) H(1) by (rule advance_shifted) (rule blinker_core[OF assms(1,2)])
  then show ?thesis
    by (simp add: blinker_horizontal_shifted[OF W(2) assms(3-6)]
        blinker_vertical_shifted[OF H(2) assms(3-6)])
qed

lemma advance_block:
  assumes "4 \<le> W" "4 \<le> H" "0 \<le> cx" "cx < W" "0 \<le> cy" "cy < H"
  shows "advance_generation W H (block W H cx cy) = block W H cx cy"
proof -
  have W: "0 < W" "2 \<le> W" and H: "0 < H" "2 \<le> H" using assms by simp_all
  have "advance_generation W H (grid_of W H (shifted W H cx cy block_rel)) =
          grid_of W H (shifted W H cx cy block_rel)"
    using W(1) H(1) by (rule advance_shifted) (rule block_core[OF assms(1,2)])
  then show ?thesis
    by (simp add: block_shifted[OF W(2) H(2) assms(3-6)])
qed

lemma grid_with_shape: "has_shape (grid_with W H live) (nat W) (nat H)"
  by (simp add: grid_with_def grid_of_shape)

lemma blinker_row_eq: "blinker_horizontal 5 5 2 2 = blinker_row"
  by (simp add: blinker_horizontal_def grid_with_def grid_of_def blinker_row_def alive_def upt_rec)

lemma blinker_column_eq: "blinker_vertical 5 5 2 2 = blinker_column"
  by (simp add: blinker_vertical_def grid_with_def grid_of_def blinker_column_def alive_def upt_rec)

lemma block_grid_eq: "block 5 5 1 1 = block_grid"
  by (simp add: block_def grid_with_def grid_of_def block_grid_def alive_def upt_rec)

subsection \<open>The cells the count reads\<close>

lemma count_neighbors_cells:
  assumes W: "0 < n_cells_x cfg" and H: "0 < n_cells_y cfg"
    and sh: "has_shape (state self) (nat (n_cells_x cfg)) (nat (n_cells_y cfg))"
  shows "count_neighbors cfg self x y =
           Inr (sum_list (map (\<lambda>(dx, dy). state self ! nat ((x + dx) mod n_cells_x cfg) !
                                 nat ((y + dy) mod n_cells_y cfg))
                  [(-1, -1), (-1, 0), (-1, 1), (0, -1), (0, 1), (1, -1), (1, 0), (1, 1)]))"
  using count_neighbors_eq[OF W H sh, of x y]
  by (simp add: count_live_neighbors_def moore_offsets_def wrapped_cell_def)

section \<open>The claims\<close>

text \<open>
  Claim C1. For a grid of the configured shape and a cell \<open>(x, y)\<close> of it,
  \<^verbatim>\<open>next_generation\<close> returns, and the cell's new value is given by the rule on the
  prior grid: with \<open>c\<close> the cell's prior value and \<open>n\<close> the result of
  \<^verbatim>\<open>_count_neighbors\<close> on the prior grid, the new value is 0 when \<open>c = 1\<close> and
  \<open>n < 2\<close> or \<open>n > 3\<close>, it is 1 when \<open>c = 0\<close> and \<open>n = 3\<close>, and it is \<open>c\<close> otherwise.
\<close>

theorem next_generation_rule:
  assumes sh: "has_shape (state self) (nat (n_cells_x cfg)) (nat (n_cells_y cfg))"
    and x: "0 \<le> x" "x < n_cells_x cfg" and y: "0 \<le> y" "y < n_cells_y cfg"
  shows "\<exists>self' n c.
           next_generation cfg self = Inr self' \<and>
           count_neighbors cfg self x y = Inr n \<and>
           np_get (state self) x y = Inr c \<and>
           np_get (state self') x y =
             Inr (if c = 1 \<and> (n < 2 \<or> n > 3) then 0
                  else if c = 0 \<and> n = 3 then 1
                  else c)"
proof -
  let ?W = "n_cells_x cfg" and ?H = "n_cells_y cfg" and ?g = "state self"
  have W: "0 < ?W" and H: "0 < ?H" using x y by simp_all
  have rng: "0 \<le> x" "x < int (nat ?W)" "0 \<le> y" "y < int (nat ?H)" using x y by simp_all
  have nx: "nat x < nat ?W" and ny: "nat y < nat ?H" using x y by simp_all
  have "np_get (advance_generation ?W ?H ?g) x y =
          Inr (life_rule (?g ! nat x ! nat y) (count_live_neighbors ?W ?H ?g x y))"
    using np_get_in_range[OF has_shape_advance rng] advance_generation_nth[OF nx ny] x y
    by simp
  then show ?thesis
    using next_generation_refines[OF sh] count_neighbors_eq[OF W H sh, of x y]
      np_get_in_range[OF sh rng]
    by (simp add: life_rule_def)
qed

text \<open>The rule at the cell above the middle of a horizontal blinker: dead with three
  live neighbours, it becomes alive.\<close>

theorem next_generation_rule_witness:
  "has_shape (state \<lparr>state = blinker_row\<rparr>) (nat (n_cells_x small_config)) (nat (n_cells_y small_config)) \<and>
   (0::int) \<le> 2 \<and> 2 < n_cells_x small_config \<and> (0::int) \<le> 1 \<and> 1 < n_cells_y small_config \<and>
   (\<exists>self'. next_generation small_config \<lparr>state = blinker_row\<rparr> = Inr self' \<and>
      count_neighbors small_config \<lparr>state = blinker_row\<rparr> 2 1 = Inr 3 \<and>
      np_get blinker_row 2 1 = Inr 0 \<and>
      np_get (state self') 2 1 = Inr 1)"
proof -
  have sh: "has_shape (state \<lparr>state = blinker_row\<rparr>) (nat (n_cells_x small_config)) (nat (n_cells_y small_config))"
    using has_shape_blinker_row by simp
  have cnt: "count_neighbors small_config \<lparr>state = blinker_row\<rparr> 2 1 = Inr 3"
    by (simp add: count_neighbors_def neighbor_offsets_def neighbor_cell_def py_mod_def
        np_get_def np_index_def blinker_row_def)
  have get: "np_get blinker_row 2 1 = Inr 0"
    by (simp add: np_get_def np_index_def blinker_row_def)
  from next_generation_rule[OF sh, of 2 1] cnt get
  show ?thesis using sh by auto
qed

text \<open>
  Claim C2. For a grid of the configured shape, \<^verbatim>\<open>next_generation\<close> (a copy of the
  grid, updated cell by cell while every read goes to the prior grid, then assigned
  to \<^verbatim>\<open>self.state\<close>) returns the grid of the two-buffer reference
  \<open>advance_generation\<close>, in which every cell is computed from the same prior grid.
\<close>

theorem next_generation_two_buffer:
  assumes "has_shape (state self) (nat (n_cells_x cfg)) (nat (n_cells_y cfg))"
  shows "next_generation cfg self =
           Inr (self\<lparr>state := advance_generation (n_cells_x cfg) (n_cells_y cfg) (state self)\<rparr>)"
  using assms by (rule next_generation_refines)

theorem next_generation_two_buffer_witness:
  "has_shape (state \<lparr>state = blinker_row\<rparr>) (nat (n_cells_x small_config)) (nat (n_cells_y small_config)) \<and>
   next_generation small_config \<lparr>state = blinker_row\<rparr> =
     Inr \<lparr>state = advance_generation 5 5 blinker_row\<rparr>"
proof -
  have sh: "has_shape (state \<lparr>state = blinker_row\<rparr>) (nat (n_cells_x small_config)) (nat (n_cells_y small_config))"
    using has_shape_blinker_row by simp
  from next_generation_two_buffer[OF sh] sh show ?thesis by simp
qed

text \<open>
  Claim C3. With positive dimensions and a grid of the configured shape, for all
  integers \<open>x\<close>, \<open>y\<close>: \<^verbatim>\<open>_count_neighbors\<close> returns the sum of the cells at
  \<open>((x + dx) mod W, (y + dy) mod H)\<close> over the eight Moore offsets \<open>(dx, dy)\<close>; for
  every offset both indices are inside the array and the lookup returns that cell, so
  no read is out of range; and at an edge the count takes in the opposite edge: at
  \<open>x = 0\<close> it sums column \<open>W - 1\<close> (with columns 0 and 1), at \<open>x = W - 1\<close> column 0, at
  \<open>y = 0\<close> row \<open>H - 1\<close>, and at \<open>y = H - 1\<close> row 0.
\<close>

theorem count_neighbors_wraps:
  assumes W: "0 < n_cells_x cfg" and H: "0 < n_cells_y cfg"
    and sh: "has_shape (state self) (nat (n_cells_x cfg)) (nat (n_cells_y cfg))"
  shows "count_neighbors cfg self x y =
           Inr (sum_list (map (\<lambda>(dx, dy). state self ! nat ((x + dx) mod n_cells_x cfg) !
                                 nat ((y + dy) mod n_cells_y cfg))
                  [(-1, -1), (-1, 0), (-1, 1), (0, -1), (0, 1), (1, -1), (1, 0), (1, 1)])) \<and>
         (\<forall>dx dy.
            nat ((x + dx) mod n_cells_x cfg) < length (state self) \<and>
            nat ((y + dy) mod n_cells_y cfg) < length (state self ! nat ((x + dx) mod n_cells_x cfg)) \<and>
            neighbor_cell cfg self x y (dx, dy) =
              Inr (state self ! nat ((x + dx) mod n_cells_x cfg) ! nat ((y + dy) mod n_cells_y cfg))) \<and>
         count_neighbors cfg self 0 y =
           Inr (sum_list (map (\<lambda>(c, dy). state self ! c ! nat ((y + dy) mod n_cells_y cfg))
                  [(nat (n_cells_x cfg) - 1, -1), (nat (n_cells_x cfg) - 1, 0),
                   (nat (n_cells_x cfg) - 1, 1), (0, -1), (0, 1),
                   (nat (1 mod n_cells_x cfg), -1), (nat (1 mod n_cells_x cfg), 0),
                   (nat (1 mod n_cells_x cfg), 1)])) \<and>
         count_neighbors cfg self (n_cells_x cfg - 1) y =
           Inr (sum_list (map (\<lambda>(c, dy). state self ! c ! nat ((y + dy) mod n_cells_y cfg))
                  [(nat ((n_cells_x cfg - 2) mod n_cells_x cfg), -1),
                   (nat ((n_cells_x cfg - 2) mod n_cells_x cfg), 0),
                   (nat ((n_cells_x cfg - 2) mod n_cells_x cfg), 1),
                   (nat (n_cells_x cfg) - 1, -1), (nat (n_cells_x cfg) - 1, 1),
                   (0, -1), (0, 0), (0, 1)])) \<and>
         count_neighbors cfg self x 0 =
           Inr (sum_list (map (\<lambda>(dx, r). state self ! nat ((x + dx) mod n_cells_x cfg) ! r)
                  [(-1, nat (n_cells_y cfg) - 1), (-1, 0), (-1, nat (1 mod n_cells_y cfg)),
                   (0, nat (n_cells_y cfg) - 1), (0, nat (1 mod n_cells_y cfg)),
                   (1, nat (n_cells_y cfg) - 1), (1, 0), (1, nat (1 mod n_cells_y cfg))])) \<and>
         count_neighbors cfg self x (n_cells_y cfg - 1) =
           Inr (sum_list (map (\<lambda>(dx, r). state self ! nat ((x + dx) mod n_cells_x cfg) ! r)
                  [(-1, nat ((n_cells_y cfg - 2) mod n_cells_y cfg)), (-1, nat (n_cells_y cfg) - 1), (-1, 0),
                   (0, nat ((n_cells_y cfg - 2) mod n_cells_y cfg)), (0, 0),
                   (1, nat ((n_cells_y cfg - 2) mod n_cells_y cfg)), (1, nat (n_cells_y cfg) - 1), (1, 0)]))"
proof -
  let ?W = "n_cells_x cfg" and ?H = "n_cells_y cfg"
  note cells = count_neighbors_cells[OF W H sh]
  have inb: "nat ((x + dx) mod ?W) < length (state self) \<and>
             nat ((y + dy) mod ?H) < length (state self ! nat ((x + dx) mod ?W)) \<and>
             neighbor_cell cfg self x y (dx, dy) =
               Inr (state self ! nat ((x + dx) mod ?W) ! nat ((y + dy) mod ?H))" for dx dy
  proof -
    have xin: "nat ((x + dx) mod ?W) < nat ?W" using W by simp
    then have "nat ((x + dx) mod ?W) < length (state self)"
      using has_shape_length[OF sh] by simp
    moreover have "nat ((y + dy) mod ?H) < length (state self ! nat ((x + dx) mod ?W))"
      using has_shape_nth[OF sh xin] H by simp
    moreover have "neighbor_cell cfg self x y (dx, dy) =
               Inr (state self ! nat ((x + dx) mod ?W) ! nat ((y + dy) mod ?H))"
      using neighbor_cell_wrapped[OF W H sh] by (simp add: wrapped_cell_def)
    ultimately show ?thesis by blast
  qed
  have k1: "nat ((- 1) mod ?W) = nat ?W - 1" and k2: "nat ((- 1) mod ?H) = nat ?H - 1"
    using W H by (simp_all add: zmod_minus1 nat_diff_distrib)
  have left: "count_neighbors cfg self 0 y =
           Inr (sum_list (map (\<lambda>(c, dy). state self ! c ! nat ((y + dy) mod ?H))
                  [(nat ?W - 1, -1), (nat ?W - 1, 0), (nat ?W - 1, 1), (0, -1), (0, 1),
                   (nat (1 mod ?W), -1), (nat (1 mod ?W), 0), (nat (1 mod ?W), 1)]))"
    by (simp add: cells[of 0 y] k1)
  have right: "count_neighbors cfg self (?W - 1) y =
           Inr (sum_list (map (\<lambda>(c, dy). state self ! c ! nat ((y + dy) mod ?H))
                  [(nat ((?W - 2) mod ?W), -1), (nat ((?W - 2) mod ?W), 0),
                   (nat ((?W - 2) mod ?W), 1),
                   (nat ?W - 1, -1), (nat ?W - 1, 1), (0, -1), (0, 0), (0, 1)]))"
    by (simp add: cells[of "?W - 1" y] k1)
  have top: "count_neighbors cfg self x 0 =
           Inr (sum_list (map (\<lambda>(dx, r). state self ! nat ((x + dx) mod ?W) ! r)
                  [(-1, nat ?H - 1), (-1, 0), (-1, nat (1 mod ?H)),
                   (0, nat ?H - 1), (0, nat (1 mod ?H)),
                   (1, nat ?H - 1), (1, 0), (1, nat (1 mod ?H))]))"
    by (simp add: cells[of x 0] k2)
  have bottom: "count_neighbors cfg self x (?H - 1) =
           Inr (sum_list (map (\<lambda>(dx, r). state self ! nat ((x + dx) mod ?W) ! r)
                  [(-1, nat ((?H - 2) mod ?H)), (-1, nat ?H - 1), (-1, 0),
                   (0, nat ((?H - 2) mod ?H)), (0, 0),
                   (1, nat ((?H - 2) mod ?H)), (1, nat ?H - 1), (1, 0)]))"
    by (simp add: cells[of x "?H - 1"] k2)
  from cells[of x y] inb left right top bottom show ?thesis by blast
qed

text \<open>
  On a 5 by 5 grid with live cells at \<open>(0, 4)\<close>, \<open>(4, 0)\<close>, \<open>(4, 4)\<close> and \<open>(2, 2)\<close>: the
  corner \<open>(0, 0)\<close> counts the three live cells on the opposite edges, the corner
  \<open>(4, 4)\<close> counts two, and the middle cell none.
\<close>

theorem count_neighbors_wraps_witness:
  "0 < n_cells_x small_config \<and> 0 < n_cells_y small_config \<and>
   has_shape (state \<lparr>state = edge_grid\<rparr>) (nat (n_cells_x small_config)) (nat (n_cells_y small_config)) \<and>
   count_neighbors small_config \<lparr>state = edge_grid\<rparr> 0 0 =
     Inr (sum_list (map (\<lambda>(c, dy). edge_grid ! c ! nat (dy mod 5))
            [(4, -1), (4, 0), (4, 1), (0, -1), (0, 1), (1, -1), (1, 0), (1, 1)])) \<and>
   count_neighbors small_config \<lparr>state = edge_grid\<rparr> 0 0 = Inr 3 \<and>
   count_neighbors small_config \<lparr>state = edge_grid\<rparr> 4 4 = Inr 2 \<and>
   count_neighbors small_config \<lparr>state = edge_grid\<rparr> 2 2 = Inr 0 \<and>
   neighbor_cell small_config \<lparr>state = edge_grid\<rparr> 0 0 (-1, -1) = Inr (edge_grid ! 4 ! 4)"
proof -
  have W: "0 < n_cells_x small_config" and H: "0 < n_cells_y small_config" by simp_all
  have sh: "has_shape (state \<lparr>state = edge_grid\<rparr>) (nat (n_cells_x small_config)) (nat (n_cells_y small_config))"
    using has_shape_edge_grid by simp
  note t = count_neighbors_wraps[OF W H sh]
  have a: "count_neighbors small_config \<lparr>state = edge_grid\<rparr> 0 0 =
     Inr (sum_list (map (\<lambda>(c, dy). edge_grid ! c ! nat (dy mod 5))
            [(4, -1), (4, 0), (4, 1), (0, -1), (0, 1), (1, -1), (1, 0), (1, 1)]))"
    using t[of 0 0] by simp
  then have b: "count_neighbors small_config \<lparr>state = edge_grid\<rparr> 0 0 = Inr 3"
    by (simp add: edge_grid_def)
  have c: "count_neighbors small_config \<lparr>state = edge_grid\<rparr> 4 4 = Inr 2"
    using t[of 4 4] by (simp add: edge_grid_def)
  have d: "count_neighbors small_config \<lparr>state = edge_grid\<rparr> 2 2 = Inr 0"
    using t[of 2 2] by (simp add: edge_grid_def)
  have e: "neighbor_cell small_config \<lparr>state = edge_grid\<rparr> 0 0 (-1, -1) = Inr (edge_grid ! 4 ! 4)"
    using t[of 0 0] by simp
  from W H sh a b c d e show ?thesis by blast
qed

text \<open>
  Claim C4. With positive dimensions and a grid of the configured shape,
  \<^verbatim>\<open>_count_neighbors\<close> returns the sum of the values at the eight Moore neighbours
  (wrapped), the cell itself left out; when every cell is 0 or 1 the sum lies between
  0 and 8.
\<close>

theorem count_neighbors_sum_range:
  assumes W: "0 < n_cells_x cfg" and H: "0 < n_cells_y cfg"
    and sh: "has_shape (state self) (nat (n_cells_x cfg)) (nat (n_cells_y cfg))"
  shows "\<exists>n. count_neighbors cfg self x y = Inr n \<and>
           n = wrapped_cell (n_cells_x cfg) (n_cells_y cfg) (state self) (x - 1) (y - 1) +
               wrapped_cell (n_cells_x cfg) (n_cells_y cfg) (state self) (x - 1) y +
               wrapped_cell (n_cells_x cfg) (n_cells_y cfg) (state self) (x - 1) (y + 1) +
               wrapped_cell (n_cells_x cfg) (n_cells_y cfg) (state self) x (y - 1) +
               wrapped_cell (n_cells_x cfg) (n_cells_y cfg) (state self) x (y + 1) +
               wrapped_cell (n_cells_x cfg) (n_cells_y cfg) (state self) (x + 1) (y - 1) +
               wrapped_cell (n_cells_x cfg) (n_cells_y cfg) (state self) (x + 1) y +
               wrapped_cell (n_cells_x cfg) (n_cells_y cfg) (state self) (x + 1) (y + 1) \<and>
           (binary_grid (state self) \<longrightarrow> 0 \<le> n \<and> n \<le> 8)"
  using count_neighbors_eq[OF W H sh, of x y] count_live_neighbors_bounds[OF W H sh, of x y]
  by (simp add: count_live_neighbors_sum)

text \<open>The middle cell of the blinker has two live neighbours.\<close>

theorem count_neighbors_sum_range_witness:
  "0 < n_cells_x small_config \<and> 0 < n_cells_y small_config \<and>
   has_shape (state \<lparr>state = blinker_row\<rparr>) (nat (n_cells_x small_config)) (nat (n_cells_y small_config)) \<and>
   binary_grid (state \<lparr>state = blinker_row\<rparr>) \<and>
   count_neighbors small_config \<lparr>state = blinker_row\<rparr> 2 2 = Inr 2 \<and>
   (\<exists>n. count_neighbors small_config \<lparr>state = blinker_row\<rparr> 2 2 = Inr n \<and> 0 \<le> n \<and> n \<le> 8)"
proof -
  have W: "0 < n_cells_x small_config" and H: "0 < n_cells_y small_config" by simp_all
  have sh: "has_shape (state \<lparr>state = blinker_row\<rparr>) (nat (n_cells_x small_config)) (nat (n_cells_y small_config))"
    using has_shape_blinker_row by simp
  have bin: "binary_grid (state \<lparr>state = blinker_row\<rparr>)"
    by (simp add: binary_grid_def blinker_row_def)
  have cnt: "count_neighbors small_config \<lparr>state = blinker_row\<rparr> 2 2 = Inr 2"
    by (simp add: count_neighbors_def neighbor_offsets_def neighbor_cell_def py_mod_def
        np_get_def np_index_def blinker_row_def)
  from count_neighbors_sum_range[OF W H sh, of 2 2] bin cnt W H sh
  show ?thesis by auto
qed

text \<open>
  Claim C6. The grid built by \<^verbatim>\<open>GameState.__init__\<close> has the shape
  \<open>(n_cells_x, n_cells_y)\<close> of the configuration, and from every grid of that shape
  any number \<open>n\<close> of \<^verbatim>\<open>next_generation\<close> calls returns a grid of the same shape.
\<close>

theorem grid_shape_fixed:
  "(GameState_init cfg env = Inr self0 \<longrightarrow>
      has_shape (state self0) (nat (n_cells_x cfg)) (nat (n_cells_y cfg))) \<and>
   (has_shape (state self) (nat (n_cells_x cfg)) (nat (n_cells_y cfg)) \<longrightarrow>
      (\<exists>self'. generations cfg n self = Inr self' \<and>
         has_shape (state self') (nat (n_cells_x cfg)) (nat (n_cells_y cfg))))"
  using GameState_init_shape[of cfg env self0] generations_shape[of self cfg n] by blast

text \<open>Under the module's configuration the shape is 40 by 30, at construction and
  after five generations.\<close>

theorem grid_shape_fixed_witness:
  "\<exists>self. GameState_init module_config \<lparr>draw = \<lambda>i j. False, alloc_error = \<lambda>shape. None\<rparr> = Inr self \<and>
      has_shape (state self) 40 30 \<and>
      (\<exists>self'. generations module_config 5 self = Inr self' \<and> has_shape (state self') 40 30)"
proof -
  let ?env = "\<lparr>draw = \<lambda>i j. False, alloc_error = \<lambda>shape. None\<rparr>"
  let ?self = "\<lparr>state = map (\<lambda>i. map (\<lambda>j. if draw ?env i j then 1 else (0::int)) [0..<30]) [0..<40]\<rparr>"
  have i: "GameState_init module_config ?env = Inr ?self"
    by (rule GameState_init_module) simp
  from grid_shape_fixed[of module_config ?env ?self ?self 5] i show ?thesis
    by (simp add: module_config_def)
qed

text \<open>
  Claim C10. In any sequence of \<^verbatim>\<open>get_instance()\<close> and \<^verbatim>\<open>GameConfig()\<close> calls, from any
  state, every \<^verbatim>\<open>get_instance()\<close> returns the same object. When an instance \<open>a\<close> exists,
  \<^verbatim>\<open>get_instance()\<close> returns \<open>a\<close> and changes nothing, and \<^verbatim>\<open>GameConfig()\<close> raises, with
  \<^verbatim>\<open>_instance\<close> still \<open>a\<close> and every stored object unchanged.
\<close>

theorem GameConfig_singleton:
  "(\<exists>obj. \<forall>r \<in> set (get_instance_results cs s). r = Inr (Some obj)) \<and>
   (GameConfig_instance t = Some a \<longrightarrow>
      get_instance t = (Inr (Some a), t) \<and>
      fst (GameConfig_init t) = Inl SingletonError \<and>
      GameConfig_instance (snd (GameConfig_init t)) = Some a \<and>
      objects (snd (GameConfig_init t)) = objects t)"
  using results_same_instance[of cs s]
  by (auto simp: GameConfig_init_exists get_instance_exists)

text \<open>From the initial state: the first \<^verbatim>\<open>get_instance()\<close> creates object 0, a direct
  construction is refused, and the next \<^verbatim>\<open>get_instance()\<close> returns object 0 again, still
  holding the 40 by 30 configuration.\<close>

theorem GameConfig_singleton_witness:
  "get_instance_results [GetInstance, Construct, GetInstance] initial_state =
     [Inr (Some 0), Inr (Some 0)] \<and>
   GameConfig_instance (snd (get_instance initial_state)) = Some 0 \<and>
   fst (GameConfig_init (snd (get_instance initial_state))) = Inl SingletonError \<and>
   GameConfig_instance (snd (GameConfig_init (snd (get_instance initial_state)))) = Some 0 \<and>
   objects (snd (GameConfig_init (snd (get_instance initial_state)))) 0 = Some module_config"
proof -
  have g: "get_instance initial_state =
      (Inr (Some 0), \<lparr>objects = [0 \<mapsto> module_config], fresh = 1, GameConfig_instance = Some 0\<rparr>)"
    by (simp add: get_instance_fresh initial_state_def)
  have i: "GameConfig_instance (snd (get_instance initial_state)) = Some 0"
    by (simp add: g)
  have r: "get_instance_results [GetInstance, Construct, GetInstance] initial_state =
     [Inr (Some 0), Inr (Some 0)]"
    by (simp add: g GameConfig_init_exists get_instance_exists)
  from GameConfig_singleton[of "[GetInstance, Construct, GetInstance]" initial_state
      "snd (get_instance initial_state)" 0] i r
  show ?thesis by (simp add: g)
qed

text \<open>
  Claim C7. On a grid of at least 4 by 3 cells whose only live cells are the
  horizontal three-cell line through \<open>(cx, cy)\<close> (anywhere, also across an edge),
  one call of \<^verbatim>\<open>next_generation\<close> returns exactly the grid whose only live cells are
  the vertical three-cell line through the same middle cell.
\<close>

theorem blinker_oscillates:
  assumes "4 \<le> n_cells_x cfg" and "3 \<le> n_cells_y cfg"
    and "0 \<le> cx" and "cx < n_cells_x cfg" and "0 \<le> cy" and "cy < n_cells_y cfg"
  shows "next_generation cfg \<lparr>state = blinker_horizontal (n_cells_x cfg) (n_cells_y cfg) cx cy\<rparr> =
           Inr \<lparr>state = blinker_vertical (n_cells_x cfg) (n_cells_y cfg) cx cy\<rparr>"
proof -
  have "has_shape (state \<lparr>state = blinker_horizontal (n_cells_x cfg) (n_cells_y cfg) cx cy\<rparr>)
          (nat (n_cells_x cfg)) (nat (n_cells_y cfg))"
    by (simp add: blinker_horizontal_def grid_with_shape)
  from next_generation_refines[OF this] show ?thesis
    by (simp add: advance_blinker[OF assms])
qed

text \<open>The blinker in the middle of the 5 by 5 grid, and the blinker through the
  corner cell \<open>(0, 0)\<close> of the module's 40 by 30 grid, which wraps across both edges.\<close>

theorem blinker_oscillates_witness:
  "4 \<le> n_cells_x small_config \<and> 3 \<le> n_cells_y small_config \<and>
   (0::int) \<le> 2 \<and> 2 < n_cells_x small_config \<and> 2 < n_cells_y small_config \<and>
   next_generation small_config \<lparr>state = blinker_row\<rparr> = Inr \<lparr>state = blinker_column\<rparr> \<and>
   next_generation module_config \<lparr>state = grid_with 40 30 [(39, 0), (0, 0), (1, 0)]\<rparr> =
     Inr \<lparr>state = grid_with 40 30 [(0, 29), (0, 0), (0, 1)]\<rparr>"
proof -
  have h: "4 \<le> n_cells_x small_config" "3 \<le> n_cells_y small_config"
    "(0::int) \<le> 2" "2 < n_cells_x small_config" "(0::int) \<le> 2" "2 < n_cells_y small_config"
    by simp_all
  have m: "next_generation module_config \<lparr>state = grid_with 40 30 [(39, 0), (0, 0), (1, 0)]\<rparr> =
     Inr \<lparr>state = grid_with 40 30 [(0, 29), (0, 0), (0, 1)]\<rparr>"
    using blinker_oscillates[of module_config 0 0]
    by (simp add: module_config_def blinker_horizontal_def blinker_vertical_def)
  from blinker_oscillates[OF h] h m show ?thesis
    by (simp add: blinker_row_eq blinker_column_eq)
qed

text \<open>
  Claim C8. On a grid of at least 4 by 4 cells whose only live cells are a 2 by 2
  block (anywhere on the torus, so that dead cells surround it), every number
  \<open>n\<close> of \<^verbatim>\<open>next_generation\<close> calls returns the grid unchanged.
\<close>

theorem block_still_life:
  assumes "4 \<le> n_cells_x cfg" and "4 \<le> n_cells_y cfg"
    and "0 \<le> cx" and "cx < n_cells_x cfg" and "0 \<le> cy" and "cy < n_cells_y cfg"
  shows "generations cfg n \<lparr>state = block (n_cells_x cfg) (n_cells_y cfg) cx cy\<rparr> =
           Inr \<lparr>state = block (n_cells_x cfg) (n_cells_y cfg) cx cy\<rparr>"
proof -
  let ?b = "\<lparr>state = block (n_cells_x cfg) (n_cells_y cfg) cx cy\<rparr>"
  have "has_shape (state ?b) (nat (n_cells_x cfg)) (nat (n_cells_y cfg))"
    by (simp add: block_def grid_with_shape)
  from next_generation_refines[OF this] have step: "next_generation cfg ?b = Inr ?b"
    by (simp add: advance_block[OF assms])
  show ?thesis
    by (induction n) (simp_all add: step)
qed

text \<open>The block on the 5 by 5 grid after seven generations, and a block in the middle
  of the module's 40 by 30 grid after a hundred.\<close>

theorem block_still_life_witness:
  "4 \<le> n_cells_x small_config \<and> 4 \<le> n_cells_y small_config \<and>
   (0::int) \<le> 1 \<and> 1 < n_cells_x small_config \<and> 1 < n_cells_y small_config \<and>
   generations small_config 7 \<lparr>state = block_grid\<rparr> = Inr \<lparr>state = block_grid\<rparr> \<and>
   generations module_config 100 \<lparr>state = grid_with 40 30 [(20, 15), (21, 15), (20, 16), (21, 16)]\<rparr> =
     Inr \<lparr>state = grid_with 40 30 [(20, 15), (21, 15), (20, 16), (21, 16)]\<rparr>"
proof -
  have h: "4 \<le> n_cells_x small_config" "4 \<le> n_cells_y small_config"
    "(0::int) \<le> 1" "1 < n_cells_x small_config" "(0::int) \<le> 1" "1 < n_cells_y small_config"
    by simp_all
  have m: "generations module_config 100 \<lparr>state = grid_with 40 30 [(20, 15), (21, 15), (20, 16), (21, 16)]\<rparr> =
     Inr \<lparr>state = grid_with 40 30 [(20, 15), (21, 15), (20, 16), (21, 16)]\<rparr>"
    using block_still_life[of module_config 20 15 100]
    by (simp add: module_config_def block_def)
  from block_still_life[OF h, of 7] h m show ?thesis
    by (simp add: block_grid_eq)
qed

end
